theory Spec2Isabelle
  imports Complex_Main
begin

section \<open>Errors\<close>

text \<open>
  The Python exceptions that the modelled code can raise. A computation that may raise
  returns \<open>error + 'a\<close>, with \<open>Inl\<close> for the exception.
\<close>

datatype error = ValueError | OverflowError | TypeError | KeyError | IllegalMonthError

definition ebind :: "error + 'a \<Rightarrow> ('a \<Rightarrow> error + 'b) \<Rightarrow> error + 'b" where
  "ebind m f = (case m of Inl e \<Rightarrow> Inl e | Inr x \<Rightarrow> f x)"

section \<open>Calendar dates (\<open>datetime.date\<close>, \<open>calendar\<close>, \<open>dateutil.relativedelta\<close>)\<close>

text \<open>
  \<open>src/utils.py\<close> computes with \<open>datetime.date\<close> values through three library
  operations: \<open>calendar.monthrange\<close>, \<open>date.replace\<close> and adding or subtracting a
  \<open>relativedelta\<close>. A date is a record of its three fields; the dates Python can
  construct are the \<open>valid_date\<close> ones.
\<close>

record date =
  year :: int
  month :: int
  day :: int

definition isleap :: "int \<Rightarrow> bool" where
  "isleap y = (y mod 4 = 0 \<and> (y mod 100 \<noteq> 0 \<or> y mod 400 = 0))"

definition mdays :: "int list" where
  "mdays = [0, 31, 28, 31, 30, 31, 30, 31, 31, 30, 31, 30, 31]"

definition days_in_month :: "int \<Rightarrow> int \<Rightarrow> int" where
  "days_in_month y m = mdays ! nat m + (if m = 2 \<and> isleap y then 1 else 0)"

text \<open>
  \<open>calendar.monthrange(year, month)\<close> returns the weekday of the first day and the
  number of days of the month; both callers in \<open>src/utils.py\<close> discard the weekday, so
  only the number of days is kept here. A month outside 1..12 raises.
\<close>

definition monthrange :: "int \<Rightarrow> int \<Rightarrow> error + int" where
  "monthrange y m =
     (if \<not> (1 \<le> m \<and> m \<le> 12) then Inl IllegalMonthError else Inr (days_in_month y m))"

definition valid_date :: "date \<Rightarrow> bool" where
  "valid_date d =
     (1 \<le> year d \<and> year d \<le> 9999 \<and> 1 \<le> month d \<and> month d \<le> 12
      \<and> 1 \<le> day d \<and> day d \<le> days_in_month (year d) (month d))"

text \<open>The constructor check of \<open>datetime.date\<close>: fields out of range raise ValueError.\<close>

definition new_date :: "int \<Rightarrow> int \<Rightarrow> int \<Rightarrow> error + date" where
  "new_date y m d =
     (if \<not> (1 \<le> y \<and> y \<le> 9999) then Inl ValueError
      else if \<not> (1 \<le> m \<and> m \<le> 12) then Inl ValueError
      else if \<not> (1 \<le> d \<and> d \<le> days_in_month y m) then Inl ValueError
      else Inr \<lparr>year = y, month = m, day = d\<rparr>)"

text \<open>\<open>dt.replace(day=d)\<close>: a new date with the day replaced, checked again.\<close>

definition replace_day :: "date \<Rightarrow> int \<Rightarrow> error + date" where
  "replace_day dt d = new_date (year dt) (month dt) d"

text \<open>Dates compare as the tuples (year, month, day).\<close>

definition date_le :: "date \<Rightarrow> date \<Rightarrow> bool" where
  "date_le a b =
     (year a < year b \<or> (year a = year b \<and>
        (month a < month b \<or> (month a = month b \<and> day a \<le> day b))))"

definition date_less :: "date \<Rightarrow> date \<Rightarrow> bool" where
  "date_less a b = (date_le a b \<and> a \<noteq> b)"

subsection \<open>Adding days (\<open>date + timedelta(days=n)\<close>)\<close>

text \<open>
  Python adds a \<open>timedelta\<close> through the day ordinal and raises OverflowError when the
  result leaves 0001-01-01 .. 9999-12-31. The same result is reached here one day at
  a time.
\<close>

definition tomorrow :: "date \<Rightarrow> error + date" where
  "tomorrow d =
     (if day d < days_in_month (year d) (month d) then Inr (d\<lparr>day := day d + 1\<rparr>)
      else if month d < 12 then Inr \<lparr>year = year d, month = month d + 1, day = 1\<rparr>
      else if year d < 9999 then Inr \<lparr>year = year d + 1, month = 1, day = 1\<rparr>
      else Inl OverflowError)"

definition yesterday :: "date \<Rightarrow> error + date" where
  "yesterday d =
     (if 1 < day d then Inr (d\<lparr>day := day d - 1\<rparr>)
      else if 1 < month d then
        Inr \<lparr>year = year d, month = month d - 1, day = days_in_month (year d) (month d - 1)\<rparr>
      else if 1 < year d then Inr \<lparr>year = year d - 1, month = 12, day = 31\<rparr>
      else Inl OverflowError)"

fun iterate_days :: "nat \<Rightarrow> (date \<Rightarrow> error + date) \<Rightarrow> date \<Rightarrow> error + date" where
  "iterate_days 0 step d = Inr d"
| "iterate_days (Suc n) step d = ebind (step d) (iterate_days n step)"

definition add_timedelta :: "date \<Rightarrow> int \<Rightarrow> error + date" where
  "add_timedelta d n =
     (if 0 \<le> n then iterate_days (nat n) tomorrow d else iterate_days (nat (- n)) yesterday d)"

subsection \<open>\<open>relativedelta\<close>\<close>

text \<open>
  The code builds \<open>relativedelta(months=k)\<close> and \<open>relativedelta(days=1)\<close>. The
  constructor normalises more than eleven months into years; adding to a date moves
  the month (carrying into the year), clamps the day to the length of the target month,
  replaces the three fields (ValueError when the year leaves 1..9999) and then adds the
  days. Subtracting adds the negated delta.
\<close>

record relativedelta =
  years :: int
  months :: int
  days :: int

definition mk_relativedelta :: "int \<Rightarrow> int \<Rightarrow> relativedelta" where
  "mk_relativedelta ms ds =
     (if 11 < \<bar>ms\<bar> then
        (let s = (if ms < 0 then - 1 else 1) in
         \<lparr>years = ((ms * s) div 12) * s, months = ((ms * s) mod 12) * s, days = ds\<rparr>)
      else \<lparr>years = 0, months = ms, days = ds\<rparr>)"

definition neg_relativedelta :: "relativedelta \<Rightarrow> relativedelta" where
  "neg_relativedelta r = \<lparr>years = - years r, months = - months r, days = - days r\<rparr>"

definition date_add :: "date \<Rightarrow> relativedelta \<Rightarrow> error + date" where
  "date_add dt r =
     (let y0 = year dt + years r;
          (y, m) =
            (if months r \<noteq> 0 then
               (let m1 = month dt + months r in
                if 12 < m1 then (y0 + 1, m1 - 12)
                else if m1 < 1 then (y0 - 1, m1 + 12)
                else (y0, m1))
             else (y0, month dt))
      in ebind (monthrange y m) (\<lambda>last.
         ebind (new_date y m (min last (day dt))) (\<lambda>repl.
         add_timedelta repl (days r))))"

definition date_sub :: "date \<Rightarrow> relativedelta \<Rightarrow> error + date" where
  "date_sub dt r = date_add dt (neg_relativedelta r)"

section \<open>Reference dates (\<open>src/utils.py\<close>)\<close>

definition get_last_day_of_month :: "date \<Rightarrow> error + date" where
  "get_last_day_of_month target_date =
     ebind (monthrange (year target_date) (month target_date)) (\<lambda>last_day.
       replace_day target_date last_day)"

definition get_arret_preparation_date :: "date \<Rightarrow> error + date" where
  "get_arret_preparation_date latest_date =
     ebind (get_last_day_of_month latest_date) (\<lambda>n. date_sub n (mk_relativedelta 7 0))"

definition get_resiliation_preparation_date :: "date \<Rightarrow> error + date" where
  "get_resiliation_preparation_date latest_date =
     ebind (get_last_day_of_month latest_date) (\<lambda>n. date_sub n (mk_relativedelta 1 0))"

definition get_client_preparation_date :: "date \<Rightarrow> error + date" where
  "get_client_preparation_date latest_date =
     ebind (get_last_day_of_month latest_date) (\<lambda>n. date_sub n (mk_relativedelta 9 0))"

definition get_prediction_start_date :: "date \<Rightarrow> error + date" where
  "get_prediction_start_date latest_date = replace_day latest_date 1"

text \<open>
  \<open>parse_last_date\<close> parses with \<open>pandas.to_datetime\<close>, first as day/month/year and,
  when that raises ValueError, as year/month/day; the parser is a parameter
  (\<open>to_datetime fmt s\<close>). The parsed date is then moved to the last day of its month.
\<close>

definition parse_last_date :: "(string \<Rightarrow> string \<Rightarrow> error + date) \<Rightarrow> string \<Rightarrow> error + date" where
  "parse_last_date to_datetime date_string =
     ebind
       (case to_datetime ''%d/%m/%Y'' date_string of
          Inl ValueError \<Rightarrow> to_datetime ''%Y/%m/%d'' date_string
        | Inl e \<Rightarrow> Inl e
        | Inr d \<Rightarrow> Inr d)
       (\<lambda>date_obj.
          ebind (monthrange (year date_obj) (month date_obj)) (\<lambda>last_day.
            replace_day date_obj last_day))"

text \<open>
  The spec's reading of "N minus k months": the same day number in the month k months
  earlier, clamped to the length of that month.
\<close>

definition minus_months_spec :: "date \<Rightarrow> int \<Rightarrow> date" where
  "minus_months_spec n k =
     (let idx = 12 * year n + (month n - 1) - k;
          y = idx div 12;
          m = idx mod 12 + 1
      in \<lparr>year = y, month = m, day = min (day n) (days_in_month y m)\<rparr>)"

text \<open>
  The position of a date's month on the line of all months, and "N plus k months" in the
  same reading as above.
\<close>

definition month_index :: "date \<Rightarrow> int" where
  "month_index d = 12 * year d + (month d - 1)"

definition plus_months_spec :: "date \<Rightarrow> int \<Rightarrow> date" where
  "plus_months_spec n k = minus_months_spec n (- k)"

text \<open>A parser that accepts one year/month/day text only; used to run \<open>parse_last_date\<close>.\<close>

definition iso_only_parser :: "string \<Rightarrow> string \<Rightarrow> error + date" where
  "iso_only_parser fmt s =
     (if fmt = ''%Y/%m/%d'' \<and> s = ''2023/11/15'' then Inr \<lparr>year = 2023, month = 11, day = 15\<rparr>
      else Inl ValueError)"

section \<open>Window construction and dataset assembly (\<open>src/data_preprocessing\<close>)\<close>

text \<open>
  The preparers hand every window to the data-access collaborator (\<open>self.processor\<close>),
  whose code is not part of the source tree: it is a record of three functions, and
  each preparer returns, next to its result, the list of queries it has issued, in
  order. The logger calls do not influence any result and are left out.
\<close>

datatype query =
    ResiliationQuery date date int
  | ArretConsoQuery date date date
  | ClientQuery date date date

record 'r processor =
  get_resiliation_data :: "date \<Rightarrow> date \<Rightarrow> int \<Rightarrow> 'r list"
  get_arret_conso_data :: "date \<Rightarrow> date \<Rightarrow> date \<Rightarrow> 'r list"
  get_client_data :: "date \<Rightarrow> date \<Rightarrow> date \<Rightarrow> 'r list"

type_synonym 'a io = "query list \<times> (error + 'a)"

definition io_return :: "'a \<Rightarrow> 'a io" where
  "io_return x = ([], Inr x)"

definition io_lift :: "error + 'a \<Rightarrow> 'a io" where
  "io_lift r = ([], r)"

definition io_bind :: "'a io \<Rightarrow> ('a \<Rightarrow> 'b io) \<Rightarrow> 'b io" where
  "io_bind m f =
     (case m of
        (t, Inl e) \<Rightarrow> (t, Inl e)
      | (t, Inr x) \<Rightarrow> (case f x of (t', r) \<Rightarrow> (t @ t', r)))"

definition prepare_resiliation_data ::
  "'r processor \<Rightarrow> date \<Rightarrow> date \<Rightarrow> int \<Rightarrow> int \<Rightarrow> 'r list io" where
  "prepare_resiliation_data proc start_date end_date months_offset scenario =
     io_bind (io_lift (date_add start_date (mk_relativedelta months_offset 0))) (\<lambda>period_start.
     io_bind (io_lift (date_add end_date (mk_relativedelta months_offset 0))) (\<lambda>period_end.
       ([ResiliationQuery period_start period_end scenario],
        Inr (get_resiliation_data proc period_start period_end scenario))))"

definition prepare_all_resiliations :: "'r processor \<Rightarrow> date \<Rightarrow> date \<Rightarrow> 'r list io" where
  "prepare_all_resiliations proc start_date end_date =
     io_bind (prepare_resiliation_data proc start_date end_date 6 0) (\<lambda>resiliation_6.
     io_bind (prepare_resiliation_data proc start_date end_date 6 1) (\<lambda>resiliation_7.
     io_bind (prepare_resiliation_data proc start_date end_date 6 2) (\<lambda>resiliation_8.
       io_return (resiliation_6 @ resiliation_7 @ resiliation_8))))"

definition prepare_arret_conso :: "'r processor \<Rightarrow> date \<Rightarrow> date \<Rightarrow> date \<Rightarrow> 'r list io" where
  "prepare_arret_conso proc start_date end_date last_date =
     ([ArretConsoQuery start_date end_date last_date],
      Inr (get_arret_conso_data proc start_date end_date last_date))"

definition prepare_clients :: "'r processor \<Rightarrow> date \<Rightarrow> date \<Rightarrow> date \<Rightarrow> 'r list io" where
  "prepare_clients proc start_date end_date last_date =
     ([ClientQuery start_date end_date last_date],
      Inr (get_client_data proc start_date end_date last_date))"

text \<open>
  \<open>prepare_test_data\<close> calls \<open>prepare_arret_conso\<close> and \<open>prepare_clients\<close> with two
  arguments, while both methods require three (\<open>start_date, end_date, last_date\<close>).
  Python evaluates the arguments and then raises TypeError before the method body
  runs, so no query is issued by such a call.
\<close>

definition prepare_arret_conso_2 :: "'r processor \<Rightarrow> date \<Rightarrow> date \<Rightarrow> 'r list io" where
  "prepare_arret_conso_2 proc start_date end_date = ([], Inl TypeError)"

definition prepare_clients_2 :: "'r processor \<Rightarrow> date \<Rightarrow> date \<Rightarrow> 'r list io" where
  "prepare_clients_2 proc start_date end_date = ([], Inl TypeError)"

definition prepare_test_data :: "'r processor \<Rightarrow> date \<Rightarrow> date \<Rightarrow> 'r list io" where
  "prepare_test_data proc date_res last_date =
     io_bind (io_lift (date_add date_res (mk_relativedelta 0 1))) (\<lambda>start_res.
     io_bind (prepare_all_resiliations proc start_res last_date) (\<lambda>test_resiliation.
     io_bind (io_lift (date_add date_res (mk_relativedelta 0 1))) (\<lambda>start_arret.
     io_bind (prepare_arret_conso_2 proc start_arret last_date) (\<lambda>test_arret_conso.
     io_bind (io_lift (date_add date_res (mk_relativedelta 0 1))) (\<lambda>start_clients.
     io_bind (prepare_clients_2 proc start_clients last_date) (\<lambda>test_clients.
       io_return (test_resiliation @ test_arret_conso @ test_clients)))))))"

text \<open>
  \<open>prepare_data\<close>, from the point where \<open>last_date\<close> is known. The configured
  \<open>start_date\<close>, the function \<open>get_prediction_date\<close> and the prediction preparer are
  imported from modules that are not in the source tree and are parameters. Reading
  the warehouse, the command line and writing the pickles are left out. The result is
  the triple of the training, test and prediction sets.
\<close>

definition prepare_data ::
  "'r processor \<Rightarrow> (date \<Rightarrow> error + date) \<Rightarrow> (date \<Rightarrow> 'r list io) \<Rightarrow> date \<Rightarrow> date
     \<Rightarrow> ('r list \<times> 'r list \<times> 'r list) io" where
  "prepare_data proc get_prediction_date prepare_predictions start_date last_date =
     io_bind (io_lift (get_resiliation_preparation_date last_date)) (\<lambda>date_res.
     io_bind (prepare_all_resiliations proc start_date date_res) (\<lambda>resiliation_data.
     io_bind (io_lift (get_arret_preparation_date last_date)) (\<lambda>date_arret.
     io_bind (prepare_arret_conso proc start_date date_arret last_date) (\<lambda>arret_conso_data.
     io_bind (io_lift (get_client_preparation_date last_date)) (\<lambda>date_client.
     io_bind (prepare_clients proc start_date date_client last_date) (\<lambda>clients_data.
     io_bind (prepare_test_data proc date_res last_date) (\<lambda>test_df.
     io_bind (io_lift (get_prediction_date last_date)) (\<lambda>prediction_date.
     io_bind (prepare_predictions prediction_date) (\<lambda>prediction_data.
       io_return (resiliation_data @ arret_conso_data @ clients_data, test_df,
                  prediction_data))))))))))"

text \<open>A collaborator that finds no record for any query.\<close>

definition null_processor :: "nat processor" where
  "null_processor =
     \<lparr>get_resiliation_data = (\<lambda>s e sc. []),
      get_arret_conso_data = (\<lambda>s e l. []),
      get_client_data = (\<lambda>s e l. [])\<rparr>"

section \<open>Properties of the date arithmetic\<close>

lemma days_in_month_bounds:
  assumes "1 \<le> m" "m \<le> 12"
  shows "28 \<le> days_in_month y m \<and> days_in_month y m \<le> 31"
proof -
  from assms have "m = 1 \<or> m = 2 \<or> m = 3 \<or> m = 4 \<or> m = 5 \<or> m = 6 \<or> m = 7 \<or> m = 8
      \<or> m = 9 \<or> m = 10 \<or> m = 11 \<or> m = 12" by arith
  then show ?thesis by (auto simp: days_in_month_def mdays_def)
qed

lemma get_last_day_of_month_valid:
  "valid_date d \<Longrightarrow>
     get_last_day_of_month d = Inr (d\<lparr>day := days_in_month (year d) (month d)\<rparr>)"
  using days_in_month_bounds[of "month d" "year d"]
  by (simp add: get_last_day_of_month_def monthrange_def ebind_def replace_day_def new_date_def valid_date_def)

lemma shift_index:
  fixes y m k :: int
  assumes "1 \<le> m" "m \<le> 12" "1 \<le> k" "k \<le> 11"
  shows "(12 * y + (m - 1) - k) div 12 = (if m - k < 1 then y - 1 else y)"
    and "(12 * y + (m - 1) - k) mod 12 + 1 = (if m - k < 1 then m - k + 12 else m - k)"
proof -
  let ?q = "if m - k < 1 then y - 1 else y"
  let ?r = "if m - k < 1 then m - k + 11 else m - k - 1"
  have a: "12 * y + (m - 1) - k = 12 * ?q + ?r" by simp
  have r: "0 \<le> ?r" "?r < 12" using assms by auto
  show "(12 * y + (m - 1) - k) div 12 = ?q"
    by (rule int_div_pos_eq[OF a r])
  have "(12 * y + (m - 1) - k) mod 12 = ?r"
    by (rule int_mod_pos_eq[OF a r])
  then show "(12 * y + (m - 1) - k) mod 12 + 1 = (if m - k < 1 then m - k + 12 else m - k)"
    by simp
qed

lemma date_sub_months:
  assumes v: "valid_date n" and k: "1 \<le> k" "k \<le> 11"
  shows "date_sub n (mk_relativedelta k 0) =
           (if 12 \<le> 12 * year n + (month n - 1) - k then Inr (minus_months_spec n k)
            else Inl ValueError)"
proof -
  let ?y = "if month n - k < 1 then year n - 1 else year n"
  let ?m = "if month n - k < 1 then month n - k + 12 else month n - k"
  have m: "1 \<le> month n" "month n \<le> 12" and y: "1 \<le> year n" "year n \<le> 9999"
    and d: "1 \<le> day n" using v by (simp_all add: valid_date_def)
  have m': "1 \<le> ?m" "?m \<le> 12" using m k by auto
  have dim: "28 \<le> days_in_month ?y ?m" using days_in_month_bounds[OF m'] by simp
  have idx: "(12 * year n + (month n - 1) - k) div 12 = ?y"
    "(12 * year n + (month n - 1) - k) mod 12 + 1 = ?m"
    using shift_index[OF m k] by simp_all
  have spec: "minus_months_spec n k = \<lparr>year = ?y, month = ?m, day = min (day n) (days_in_month ?y ?m)\<rparr>"
    unfolding minus_months_spec_def Let_def idx by simp
  have rd: "neg_relativedelta (mk_relativedelta k 0) = \<lparr>years = 0, months = - k, days = 0\<rparr>"
    using k by (simp add: mk_relativedelta_def neg_relativedelta_def)
  have ge: "(12 \<le> 12 * year n + (month n - 1) - k) = (1 \<le> ?y)" using m k by auto
  have step: "date_add n \<lparr>years = 0, months = - k, days = 0\<rparr> =
      ebind (new_date ?y ?m (min (days_in_month ?y ?m) (day n))) (\<lambda>repl. Inr repl)"
    using m k m' by (auto simp: date_add_def Let_def monthrange_def ebind_def add_timedelta_def)
  show ?thesis
    unfolding date_sub_def rd step spec ge
    using m' dim d y by (auto simp: new_date_def ebind_def min_def)
qed

lemma get_last_day_of_month_fixed:
  assumes "get_last_day_of_month d = Inr n"
  shows "valid_date n \<and> get_last_day_of_month n = Inr n"
proof -
  from assms have m: "1 \<le> month d" "month d \<le> 12"
    by (auto simp: get_last_day_of_month_def monthrange_def ebind_def split: if_splits)
  from assms m have n: "n = \<lparr>year = year d, month = month d, day = days_in_month (year d) (month d)\<rparr>"
    and y: "1 \<le> year d" "year d \<le> 9999"
    by (auto simp: get_last_day_of_month_def monthrange_def ebind_def replace_day_def
        new_date_def split: if_splits)
  have v: "valid_date n"
    using n m y days_in_month_bounds[OF m, of "year d"] by (simp add: valid_date_def)
  have "get_last_day_of_month n = Inr (n\<lparr>day := days_in_month (year n) (month n)\<rparr>)"
    by (rule get_last_day_of_month_valid[OF v])
  with v n show ?thesis by simp
qed

lemma parse_last_date_fixed:
  assumes "parse_last_date td s = Inr n"
  shows "get_last_day_of_month n = Inr n"
proof -
  from assms obtain d where "get_last_day_of_month d = Inr n"
    unfolding parse_last_date_def get_last_day_of_month_def
    by (cases "case td ''%d/%m/%Y'' s of Inl ValueError \<Rightarrow> td ''%Y/%m/%d'' s | Inl e \<Rightarrow> Inl e | Inr d \<Rightarrow> Inr d")
       (auto simp: ebind_def)
  then show ?thesis using get_last_day_of_month_fixed by blast
qed

lemma dim_simps: "days_in_month 2023 11 = 30" "days_in_month 2023 10 = 31"
  "days_in_month 2023 4 = 30" "days_in_month 2023 2 = 28"
  by (simp_all add: days_in_month_def mdays_def isleap_def)

lemma month_index_fields:
  assumes "1 \<le> month d" "month d \<le> 12"
  shows "month_index d div 12 = year d" "month_index d mod 12 = month d - 1"
proof -
  have a: "month_index d = 12 * year d + (month d - 1)" by (simp add: month_index_def)
  have r: "0 \<le> month d - 1" "month d - 1 < 12" using assms by auto
  show "month_index d div 12 = year d" by (rule int_div_pos_eq[OF a r])
  show "month_index d mod 12 = month d - 1" by (rule int_mod_pos_eq[OF a r])
qed

lemma minus_months_spec_fields:
  "year (minus_months_spec n k) = (month_index n - k) div 12"
  "month (minus_months_spec n k) = (month_index n - k) mod 12 + 1"
  "day (minus_months_spec n k) =
     min (day n) (days_in_month ((month_index n - k) div 12) ((month_index n - k) mod 12 + 1))"
  by (simp_all add: minus_months_spec_def month_index_def Let_def)

lemma month_index_shift:
  "month_index (minus_months_spec n k) = month_index n - k"
proof -
  have "month_index (minus_months_spec n k)
      = 12 * ((month_index n - k) div 12) + (month_index n - k) mod 12"
    by (simp add: month_index_def minus_months_spec_fields)
  then show ?thesis by simp
qed

lemma date_le_month_index:
  assumes "1 \<le> month a" "month a \<le> 12" "1 \<le> month b" "month b \<le> 12"
  shows "date_le a b = (month_index a < month_index b
     \<or> (month_index a = month_index b \<and> day a \<le> day b))"
  using assms unfolding date_le_def month_index_def by auto

lemma div_mod_lex:
  fixes x y :: int
  assumes "x < y"
  shows "x div 12 < y div 12 \<or> (x div 12 = y div 12 \<and> x mod 12 < y mod 12)"
proof -
  have le: "x div 12 \<le> y div 12" using assms by (simp add: zdiv_mono1)
  have x: "x = 12 * (x div 12) + x mod 12" and y: "y = 12 * (y div 12) + y mod 12" by simp_all
  show ?thesis
  proof (cases "x div 12 = y div 12")
    case True
    with x y assms have "x mod 12 < y mod 12" by linarith
    with True show ?thesis by simp
  next
    case False
    with le show ?thesis by simp
  qed
qed

lemma minus_months_spec_valid:
  assumes "valid_date n" and "12 \<le> month_index n - k" and "month_index n - k < 120000"
  shows "valid_date (minus_months_spec n k)"
proof -
  let ?i = "month_index n - k"
  have m: "1 \<le> ?i mod 12 + 1" "?i mod 12 + 1 \<le> 12"
    using pos_mod_sign[of 12 ?i] pos_mod_bound[of 12 ?i] by simp_all
  have y: "1 \<le> ?i div 12" "?i div 12 \<le> 9999"
    using zdiv_mono1[of 12 ?i 12] zdiv_mono1[of ?i 119999 12] assms(2,3) by simp_all
  have d: "1 \<le> day n" using assms(1) by (simp add: valid_date_def)
  show ?thesis
    unfolding valid_date_def minus_months_spec_fields
    using m y d days_in_month_bounds[OF m, of "?i div 12"] by (simp add: min_def)
qed

lemma minus_months_spec_mono:
  assumes a: "1 \<le> month a" "month a \<le> 12" and b: "1 \<le> month b" "month b \<le> 12"
    and le: "date_le a b"
  shows "date_le (minus_months_spec a k) (minus_months_spec b k)"
proof -
  from le have c: "month_index a < month_index b
     \<or> (month_index a = month_index b \<and> day a \<le> day b)"
    using date_le_month_index[OF a b] by simp
  then show ?thesis
  proof
    assume "month_index a < month_index b"
    then have "month_index a - k < month_index b - k" by simp
    from div_mod_lex[OF this] show ?thesis
      unfolding date_le_def minus_months_spec_fields by auto
  next
    assume "month_index a = month_index b \<and> day a \<le> day b"
    then show ?thesis
      unfolding date_le_def minus_months_spec_fields by (auto simp: min_def)
  qed
qed

lemma plus_months_spec_later:
  assumes "1 \<le> month a" "month a \<le> 12" and "0 < k"
  shows "date_less a (plus_months_spec a k)"
proof -
  have "month_index a < month_index a - (- k)" using assms(3) by simp
  from div_mod_lex[OF this] have "year a < year (plus_months_spec a k)
    \<or> (year a = year (plus_months_spec a k) \<and> month a < month (plus_months_spec a k))"
    unfolding plus_months_spec_def minus_months_spec_fields
    using month_index_fields[OF assms(1,2)] by auto
  then show ?thesis unfolding date_less_def date_le_def by auto
qed

lemma shift_index_plus:
  fixes y m k :: int
  assumes "1 \<le> m" "m \<le> 12" "1 \<le> k" "k \<le> 11"
  shows "(12 * y + (m - 1) + k) div 12 = (if 12 < m + k then y + 1 else y)"
    and "(12 * y + (m - 1) + k) mod 12 + 1 = (if 12 < m + k then m + k - 12 else m + k)"
proof -
  let ?q = "if 12 < m + k then y + 1 else y"
  let ?r = "if 12 < m + k then m + k - 13 else m + k - 1"
  have a: "12 * y + (m - 1) + k = 12 * ?q + ?r" by simp
  have r: "0 \<le> ?r" "?r < 12" using assms by auto
  show "(12 * y + (m - 1) + k) div 12 = ?q"
    by (rule int_div_pos_eq[OF a r])
  have "(12 * y + (m - 1) + k) mod 12 = ?r"
    by (rule int_mod_pos_eq[OF a r])
  then show "(12 * y + (m - 1) + k) mod 12 + 1 = (if 12 < m + k then m + k - 12 else m + k)"
    by simp
qed

lemma date_add_months:
  assumes v: "valid_date n" and k: "1 \<le> k" "k \<le> 11"
  shows "date_add n (mk_relativedelta k 0) =
           (if month_index n + k < 120000 then Inr (plus_months_spec n k)
            else Inl ValueError)"
proof -
  let ?y = "if 12 < month n + k then year n + 1 else year n"
  let ?m = "if 12 < month n + k then month n + k - 12 else month n + k"
  have m: "1 \<le> month n" "month n \<le> 12" and y: "1 \<le> year n" "year n \<le> 9999"
    and d: "1 \<le> day n" using v by (simp_all add: valid_date_def)
  have m': "1 \<le> ?m" "?m \<le> 12" using m k by auto
  have dim: "28 \<le> days_in_month ?y ?m" using days_in_month_bounds[OF m'] by simp
  have idx: "(12 * year n + (month n - 1) + k) div 12 = ?y"
    "(12 * year n + (month n - 1) + k) mod 12 + 1 = ?m"
    using shift_index_plus[OF m k] by simp_all
  have spec: "plus_months_spec n k = \<lparr>year = ?y, month = ?m, day = min (day n) (days_in_month ?y ?m)\<rparr>"
    unfolding plus_months_spec_def minus_months_spec_def Let_def using idx by simp
  have rd: "mk_relativedelta k 0 = \<lparr>years = 0, months = k, days = 0\<rparr>"
    using k by (simp add: mk_relativedelta_def)
  have ge: "(month_index n + k < 120000) = (?y \<le> 9999)" using m k by (auto simp: month_index_def)
  have step: "date_add n \<lparr>years = 0, months = k, days = 0\<rparr> =
      ebind (new_date ?y ?m (min (days_in_month ?y ?m) (day n))) (\<lambda>repl. Inr repl)"
    using m k m' by (auto simp: date_add_def Let_def monthrange_def ebind_def add_timedelta_def)
  show ?thesis
    unfolding rd step spec ge
    using m' dim d y by (auto simp: new_date_def ebind_def min_def)
qed

lemma date_add_one_day:
  assumes v: "valid_date d"
  shows "date_add d (mk_relativedelta 0 1) = tomorrow d"
proof -
  have m: "1 \<le> month d" "month d \<le> 12" and y: "1 \<le> year d" "year d \<le> 9999"
    and dd: "1 \<le> day d" "day d \<le> days_in_month (year d) (month d)"
    using v by (simp_all add: valid_date_def)
  have mn: "min (days_in_month (year d) (month d)) (day d) = day d" using dd by simp
  have nd: "new_date (year d) (month d) (day d) = Inr d"
    using m y dd by (cases d) (simp add: new_date_def)
  have it: "add_timedelta d 1 = tomorrow d"
    by (cases "tomorrow d") (simp_all add: add_timedelta_def ebind_def)
  show ?thesis
    using m by (simp add: date_add_def mk_relativedelta_def monthrange_def ebind_def mn nd it)
qed

lemma tomorrow_valid:
  assumes v: "valid_date d" and t: "tomorrow d = Inr d'"
  shows "valid_date d'" and "date_less d d'" and "month_index d' \<le> month_index d + 1"
proof -
  have m: "1 \<le> month d" "month d \<le> 12" and y: "1 \<le> year d" "year d \<le> 9999"
    and dd: "1 \<le> day d" "day d \<le> days_in_month (year d) (month d)"
    using v by (simp_all add: valid_date_def)
  have b1: "28 \<le> days_in_month (year d) (month d + 1)" if "month d < 12"
    using days_in_month_bounds[of "month d + 1" "year d"] m that by simp
  have b2: "28 \<le> days_in_month (year d + 1) 1"
    using days_in_month_bounds[of 1 "year d + 1"] by simp
  show "valid_date d'"
    using t m y dd b1 b2 by (auto simp: tomorrow_def valid_date_def split: if_splits)
  show "date_less d d'"
    using t by (cases d) (auto simp: tomorrow_def date_less_def date_le_def split: if_splits)
  show "month_index d' \<le> month_index d + 1"
    using t by (auto simp: tomorrow_def month_index_def split: if_splits)
qed

lemma prepare_resiliation_data_run:
  assumes "date_add s (mk_relativedelta m 0) = Inr ps" and "date_add e (mk_relativedelta m 0) = Inr pe"
  shows "prepare_resiliation_data proc s e m sc =
          ([ResiliationQuery ps pe sc], Inr (get_resiliation_data proc ps pe sc))"
  using assms by (simp add: prepare_resiliation_data_def io_bind_def io_lift_def)

lemma prepare_all_resiliations_run:
  assumes "date_add s (mk_relativedelta 6 0) = Inr ps" and "date_add e (mk_relativedelta 6 0) = Inr pe"
  shows "prepare_all_resiliations proc s e =
          ([ResiliationQuery ps pe 0, ResiliationQuery ps pe 1, ResiliationQuery ps pe 2],
           Inr (get_resiliation_data proc ps pe 0 @ get_resiliation_data proc ps pe 1
                @ get_resiliation_data proc ps pe 2))"
  unfolding prepare_all_resiliations_def
  by (simp add: prepare_resiliation_data_run[OF assms] io_bind_def io_return_def)

lemma prepare_test_data_run:
  assumes "date_add date_res (mk_relativedelta 0 1) = Inr t"
    and "date_add t (mk_relativedelta 6 0) = Inr ts"
    and "date_add last_date (mk_relativedelta 6 0) = Inr te"
  shows "prepare_test_data proc date_res last_date =
          ([ResiliationQuery ts te 0, ResiliationQuery ts te 1, ResiliationQuery ts te 2],
           Inl TypeError)"
  unfolding prepare_test_data_def
  by (simp add: assms(1) prepare_all_resiliations_run[OF assms(2,3)] io_bind_def io_lift_def
      prepare_arret_conso_2_def)

lemma preparation_date_values:
  assumes "valid_date D" and "2 \<le> year D"
  shows "get_last_day_of_month D = Inr (D\<lparr>day := days_in_month (year D) (month D)\<rparr>)"
    and "get_resiliation_preparation_date D
        = Inr (minus_months_spec (D\<lparr>day := days_in_month (year D) (month D)\<rparr>) 1)"
    and "get_arret_preparation_date D
        = Inr (minus_months_spec (D\<lparr>day := days_in_month (year D) (month D)\<rparr>) 7)"
    and "get_client_preparation_date D
        = Inr (minus_months_spec (D\<lparr>day := days_in_month (year D) (month D)\<rparr>) 9)"
proof -
  let ?N = "D\<lparr>day := days_in_month (year D) (month D)\<rparr>"
  have m: "1 \<le> month D" "month D \<le> 12" using assms(1) by (simp_all add: valid_date_def)
  show n: "get_last_day_of_month D = Inr ?N" by (rule get_last_day_of_month_valid[OF assms(1)])
  have vn: "valid_date ?N"
    using assms(1) days_in_month_bounds[OF m, of "year D"] by (simp add: valid_date_def)
  have sub: "date_sub ?N (mk_relativedelta k 0) = Inr (minus_months_spec ?N k)"
    if "1 \<le> k" "k \<le> 11" for k
    using date_sub_months[OF vn that] assms(2) m that by simp
  show "get_resiliation_preparation_date D = Inr (minus_months_spec ?N 1)"
    unfolding get_resiliation_preparation_date_def n by (simp add: ebind_def sub)
  show "get_arret_preparation_date D = Inr (minus_months_spec ?N 7)"
    unfolding get_arret_preparation_date_def n by (simp add: ebind_def sub)
  show "get_client_preparation_date D = Inr (minus_months_spec ?N 9)"
    unfolding get_client_preparation_date_def n by (simp add: ebind_def sub)
qed

lemma date_le_trans: "date_le a b \<Longrightarrow> date_le b c \<Longrightarrow> date_le a c"
  unfolding date_le_def by auto

lemma tomorrow_defined_index:
  assumes "valid_date d" and "month_index d < 119999"
  shows "\<exists>d'. tomorrow d = Inr d'"
  using assms by (auto simp: tomorrow_def month_index_def valid_date_def)

lemma prepare_data_run:
  assumes "get_resiliation_preparation_date last_date = Inr dr"
    and "get_arret_preparation_date last_date = Inr da"
    and "get_client_preparation_date last_date = Inr dc"
    and "date_add start_date (mk_relativedelta 6 0) = Inr ps"
    and "date_add dr (mk_relativedelta 6 0) = Inr pe"
    and "date_add dr (mk_relativedelta 0 1) = Inr t"
    and "date_add t (mk_relativedelta 6 0) = Inr ts"
    and "date_add last_date (mk_relativedelta 6 0) = Inr te"
  shows "prepare_data proc gpd pp start_date last_date =
     ([ResiliationQuery ps pe 0, ResiliationQuery ps pe 1, ResiliationQuery ps pe 2,
       ArretConsoQuery start_date da last_date, ClientQuery start_date dc last_date,
       ResiliationQuery ts te 0, ResiliationQuery ts te 1, ResiliationQuery ts te 2],
      Inl TypeError)"
  unfolding prepare_data_def
  by (simp add: assms(1,2,3) prepare_all_resiliations_run[OF assms(4,5)]
      prepare_test_data_run[OF assms(6,7,8)] prepare_arret_conso_def prepare_clients_def
      io_bind_def io_lift_def)

lemma prepare_data_windows:
  assumes vs: "valid_date start_date" and ys: "year start_date \<le> 9998"
    and vl: "valid_date last_date" and yl: "2 \<le> year last_date" "year last_date \<le> 9998"
  shows "\<exists>date_res date_arret date_client t.
      get_resiliation_preparation_date last_date = Inr date_res
    \<and> get_arret_preparation_date last_date = Inr date_arret
    \<and> get_client_preparation_date last_date = Inr date_client
    \<and> tomorrow date_res = Inr t
    \<and> prepare_data proc gpd pp start_date last_date =
       ([ResiliationQuery (plus_months_spec start_date 6) (plus_months_spec date_res 6) 0,
         ResiliationQuery (plus_months_spec start_date 6) (plus_months_spec date_res 6) 1,
         ResiliationQuery (plus_months_spec start_date 6) (plus_months_spec date_res 6) 2,
         ArretConsoQuery start_date date_arret last_date,
         ClientQuery start_date date_client last_date,
         ResiliationQuery (plus_months_spec t 6) (plus_months_spec last_date 6) 0,
         ResiliationQuery (plus_months_spec t 6) (plus_months_spec last_date 6) 1,
         ResiliationQuery (plus_months_spec t 6) (plus_months_spec last_date 6) 2],
        Inl TypeError)
    \<and> date_less date_res (plus_months_spec date_res 6)
    \<and> date_le date_res (plus_months_spec t 6)
    \<and> (date_le start_date date_res \<longrightarrow>
          date_le (plus_months_spec start_date 6) (plus_months_spec date_res 6))
    \<and> (date_le t last_date \<longrightarrow>
          date_le (plus_months_spec t 6) (plus_months_spec last_date 6))"
proof -
  let ?N = "last_date\<lparr>day := days_in_month (year last_date) (month last_date)\<rparr>"
  let ?dr = "minus_months_spec ?N 1"
  let ?da = "minus_months_spec ?N 7"
  let ?dc = "minus_months_spec ?N 9"
  have ml: "1 \<le> month last_date" "month last_date \<le> 12"
    and ms: "1 \<le> month start_date" "month start_date \<le> 12"
    using vl vs by (simp_all add: valid_date_def)
  have vn: "valid_date ?N"
    using vl days_in_month_bounds[OF ml, of "year last_date"] by (simp add: valid_date_def)
  have iN: "month_index ?N = month_index last_date" by (simp add: month_index_def)
  have il: "24 \<le> month_index last_date" "month_index last_date \<le> 119987"
    using yl ml by (simp_all add: month_index_def)
  have ist: "month_index start_date \<le> 119987" using ys ms by (simp add: month_index_def)
  note prep = preparation_date_values[OF vl yl(1)]
  have vdr: "valid_date ?dr"
    using il by (intro minus_months_spec_valid[OF vn]) (simp_all add: iN)
  have idr: "month_index ?dr = month_index last_date - 1"
    by (simp add: month_index_shift iN)
  obtain t where t: "tomorrow ?dr = Inr t"
    using tomorrow_defined_index[OF vdr] idr il by auto
  note tv = tomorrow_valid[OF vdr t]
  have mdr: "1 \<le> month ?dr" "month ?dr \<le> 12" and mt: "1 \<le> month t" "month t \<le> 12"
    using vdr tv(1) by (simp_all add: valid_date_def)
  have six: "(1::int) \<le> 6" "(6::int) \<le> 11" by simp_all
  have a1: "date_add start_date (mk_relativedelta 6 0) = Inr (plus_months_spec start_date 6)"
    using date_add_months[OF vs six] ist by simp
  have a2: "date_add ?dr (mk_relativedelta 6 0) = Inr (plus_months_spec ?dr 6)"
    using date_add_months[OF vdr six] idr il by simp
  have a3: "date_add ?dr (mk_relativedelta 0 1) = Inr t"
    using date_add_one_day[OF vdr] t by simp
  have a4: "date_add t (mk_relativedelta 6 0) = Inr (plus_months_spec t 6)"
    using date_add_months[OF tv(1) six] tv(3) idr il by simp
  have a5: "date_add last_date (mk_relativedelta 6 0) = Inr (plus_months_spec last_date 6)"
    using date_add_months[OF vl six] il by simp
  have run: "prepare_data proc gpd pp start_date last_date =
       ([ResiliationQuery (plus_months_spec start_date 6) (plus_months_spec ?dr 6) 0,
         ResiliationQuery (plus_months_spec start_date 6) (plus_months_spec ?dr 6) 1,
         ResiliationQuery (plus_months_spec start_date 6) (plus_months_spec ?dr 6) 2,
         ArretConsoQuery start_date ?da last_date,
         ClientQuery start_date ?dc last_date,
         ResiliationQuery (plus_months_spec t 6) (plus_months_spec last_date 6) 0,
         ResiliationQuery (plus_months_spec t 6) (plus_months_spec last_date 6) 1,
         ResiliationQuery (plus_months_spec t 6) (plus_months_spec last_date 6) 2],
        Inl TypeError)"
    by (rule prepare_data_run[OF prep(2) prep(3) prep(4) a1 a2 a3 a4 a5])
  have l1: "date_less ?dr (plus_months_spec ?dr 6)"
    by (rule plus_months_spec_later[OF mdr]) simp
  have "date_le ?dr t" using tv(2) by (simp add: date_less_def)
  moreover have "date_le t (plus_months_spec t 6)"
    using plus_months_spec_later[OF mt, of 6] by (simp add: date_less_def)
  ultimately have l2: "date_le ?dr (plus_months_spec t 6)" by (rule date_le_trans)
  have l3: "date_le (plus_months_spec start_date 6) (plus_months_spec ?dr 6)"
    if "date_le start_date ?dr"
    unfolding plus_months_spec_def by (rule minus_months_spec_mono[OF ms mdr that])
  have l4: "date_le (plus_months_spec t 6) (plus_months_spec last_date 6)"
    if "date_le t last_date"
    unfolding plus_months_spec_def by (rule minus_months_spec_mono[OF mt ml that])
  show ?thesis
    using prep(2) prep(3) prep(4) t run l1 l2 l3 l4 by blast
qed

section \<open>The claims\<close>

text \<open>
  Claim C9. Month-end normalisation is idempotent: every calendar date \<open>D\<close> is
  normalised to some date \<open>N\<close>, and normalising \<open>N\<close> again returns \<open>N\<close>. The
  same holds with the exceptions kept (second conjunct), and every date returned by
  \<open>parse_last_date\<close> is a fixed point of the normalisation.
\<close>

theorem month_end_normalization_idempotent:
  "(valid_date D \<longrightarrow>
      (\<exists>N. get_last_day_of_month D = Inr N \<and> get_last_day_of_month N = Inr N))
   \<and> ebind (get_last_day_of_month D) get_last_day_of_month = get_last_day_of_month D
   \<and> (parse_last_date to_datetime s = Inr M \<longrightarrow> get_last_day_of_month M = Inr M)"
proof (intro conjI impI)
  assume "valid_date D"
  then have "get_last_day_of_month D = Inr (D\<lparr>day := days_in_month (year D) (month D)\<rparr>)"
    by (rule get_last_day_of_month_valid)
  then show "\<exists>N. get_last_day_of_month D = Inr N \<and> get_last_day_of_month N = Inr N"
    using get_last_day_of_month_fixed by blast
next
  show "ebind (get_last_day_of_month D) get_last_day_of_month = get_last_day_of_month D"
    using get_last_day_of_month_fixed[of D]
    by (cases "get_last_day_of_month D") (simp_all add: ebind_def)
next
  assume "parse_last_date to_datetime s = Inr M"
  then show "get_last_day_of_month M = Inr M" by (rule parse_last_date_fixed)
qed

theorem month_end_normalization_idempotent_witness:
  "valid_date \<lparr>year = 2023, month = 11, day = 15\<rparr>
   \<and> get_last_day_of_month \<lparr>year = 2023, month = 11, day = 15\<rparr>
       = Inr \<lparr>year = 2023, month = 11, day = 30\<rparr>
   \<and> get_last_day_of_month \<lparr>year = 2023, month = 11, day = 30\<rparr>
       = Inr \<lparr>year = 2023, month = 11, day = 30\<rparr>
   \<and> parse_last_date iso_only_parser ''2023/11/15'' = Inr \<lparr>year = 2023, month = 11, day = 30\<rparr>"
proof -
  have v: "valid_date \<lparr>year = 2023, month = 11, day = 15\<rparr>"
    by (simp add: valid_date_def days_in_month_def mdays_def)
  have g: "get_last_day_of_month \<lparr>year = 2023, month = 11, day = 15\<rparr>
       = Inr \<lparr>year = 2023, month = 11, day = 30\<rparr>"
    by (simp add: get_last_day_of_month_def monthrange_def ebind_def replace_day_def new_date_def
        days_in_month_def mdays_def)
  have p: "parse_last_date iso_only_parser ''2023/11/15'' = Inr \<lparr>year = 2023, month = 11, day = 30\<rparr>"
    by (simp add: parse_last_date_def iso_only_parser_def monthrange_def ebind_def replace_day_def
        new_date_def days_in_month_def mdays_def)
  from month_end_normalization_idempotent
    [of "\<lparr>year = 2023, month = 11, day = 15\<rparr>" iso_only_parser "''2023/11/15''"
        "\<lparr>year = 2023, month = 11, day = 30\<rparr>"] v g p
  show ?thesis by auto
qed

text \<open>
  Claim C3, amended. For every date \<open>D\<close> from year 2 on, with \<open>N\<close> the last day of
  the month of \<open>D\<close>, the resiliation, consumption-stop and client preparation dates
  are \<open>N\<close> minus 1, 7 and 9 months: the day number of \<open>N\<close> in the earlier month,
  clamped to that month's length. For 2023-11-15 this gives 2023-11-30, then
  2023-10-30 (not 2023-10-31), 2023-04-30 and 2023-02-28.
\<close>

theorem preparation_dates:
  assumes "valid_date D" and "2 \<le> year D"
  shows "get_last_day_of_month D = Inr (D\<lparr>day := days_in_month (year D) (month D)\<rparr>)
    \<and> get_resiliation_preparation_date D
        = Inr (minus_months_spec (D\<lparr>day := days_in_month (year D) (month D)\<rparr>) 1)
    \<and> get_arret_preparation_date D
        = Inr (minus_months_spec (D\<lparr>day := days_in_month (year D) (month D)\<rparr>) 7)
    \<and> get_client_preparation_date D
        = Inr (minus_months_spec (D\<lparr>day := days_in_month (year D) (month D)\<rparr>) 9)"
proof -
  let ?N = "D\<lparr>day := days_in_month (year D) (month D)\<rparr>"
  have m: "1 \<le> month D" "month D \<le> 12" using assms(1) by (simp_all add: valid_date_def)
  have n: "get_last_day_of_month D = Inr ?N" by (rule get_last_day_of_month_valid[OF assms(1)])
  have vn: "valid_date ?N"
    using assms(1) days_in_month_bounds[OF m, of "year D"] by (simp add: valid_date_def)
  have sub: "date_sub ?N (mk_relativedelta k 0) = Inr (minus_months_spec ?N k)"
    if "1 \<le> k" "k \<le> 11" for k
    using date_sub_months[OF vn that] assms(2) m that by simp
  show ?thesis
    unfolding get_resiliation_preparation_date_def get_arret_preparation_date_def
      get_client_preparation_date_def n
    by (simp add: ebind_def sub)
qed

theorem preparation_dates_witness:
  "valid_date \<lparr>year = 2023, month = 11, day = 15\<rparr> \<and> (2::int) \<le> 2023
   \<and> get_last_day_of_month \<lparr>year = 2023, month = 11, day = 15\<rparr>
        = Inr \<lparr>year = 2023, month = 11, day = 30\<rparr>
   \<and> get_resiliation_preparation_date \<lparr>year = 2023, month = 11, day = 15\<rparr>
        = Inr \<lparr>year = 2023, month = 10, day = 30\<rparr>
   \<and> get_arret_preparation_date \<lparr>year = 2023, month = 11, day = 15\<rparr>
        = Inr \<lparr>year = 2023, month = 4, day = 30\<rparr>
   \<and> get_client_preparation_date \<lparr>year = 2023, month = 11, day = 15\<rparr>
        = Inr \<lparr>year = 2023, month = 2, day = 28\<rparr>"
proof -
  have v: "valid_date \<lparr>year = 2023, month = 11, day = 15\<rparr>"
    by (simp add: valid_date_def dim_simps)
  have y: "2 \<le> year \<lparr>year = 2023, month = 11, day = 15\<rparr>" by simp
  show ?thesis
    using preparation_dates[OF v y] v
    by (simp add: minus_months_spec_def dim_simps)
qed

text \<open>
  Claim C3 as stated fails on its own example: from 2023-11-15 the resiliation
  preparation date is 2023-10-30, not 2023-10-31.
\<close>

theorem resiliation_as_of_example_counterexample:
  "get_resiliation_preparation_date \<lparr>year = 2023, month = 11, day = 15\<rparr>
     = Inr \<lparr>year = 2023, month = 10, day = 30\<rparr>
   \<and> get_resiliation_preparation_date \<lparr>year = 2023, month = 11, day = 15\<rparr>
     \<noteq> Inr \<lparr>year = 2023, month = 10, day = 31\<rparr>"
  by (simp add: get_resiliation_preparation_date_def get_last_day_of_month_def monthrange_def
      ebind_def replace_day_def new_date_def date_sub_def date_add_def mk_relativedelta_def
      neg_relativedelta_def add_timedelta_def dim_simps)

text \<open>
  Claim C4, amended. For every last-known date \<open>D\<close>, the start of the prediction
  window computed from \<open>D\<close> is the first day of the month of \<open>D\<close> itself, a date
  that is never later than \<open>D\<close>.
\<close>

theorem prediction_start_first_of_same_month:
  assumes "valid_date D"
  shows "get_prediction_start_date D = Inr (D\<lparr>day := 1\<rparr>) \<and> date_le (D\<lparr>day := 1\<rparr>) D"
proof -
  have m: "1 \<le> month D" "month D \<le> 12" using assms by (simp_all add: valid_date_def)
  show ?thesis
    using assms days_in_month_bounds[OF m, of "year D"]
    by (simp add: get_prediction_start_date_def replace_day_def new_date_def valid_date_def
        date_le_def)
qed

theorem prediction_start_first_of_same_month_witness:
  "valid_date \<lparr>year = 2023, month = 11, day = 15\<rparr>
   \<and> get_prediction_start_date \<lparr>year = 2023, month = 11, day = 15\<rparr>
       = Inr \<lparr>year = 2023, month = 11, day = 1\<rparr>
   \<and> date_le \<lparr>year = 2023, month = 11, day = 1\<rparr> \<lparr>year = 2023, month = 11, day = 15\<rparr>"
proof -
  have v: "valid_date \<lparr>year = 2023, month = 11, day = 15\<rparr>"
    by (simp add: valid_date_def dim_simps)
  show ?thesis using prediction_start_first_of_same_month[OF v] v by simp
qed

text \<open>
  Claim C4 as stated fails: from 2023-11-15 the prediction start is 2023-11-01, which is
  neither 2023-12-01 nor later than the input.
\<close>

theorem prediction_start_not_following_month_counterexample:
  "get_prediction_start_date \<lparr>year = 2023, month = 11, day = 15\<rparr>
     = Inr \<lparr>year = 2023, month = 11, day = 1\<rparr>
   \<and> get_prediction_start_date \<lparr>year = 2023, month = 11, day = 15\<rparr>
     \<noteq> Inr \<lparr>year = 2023, month = 12, day = 1\<rparr>
   \<and> \<not> date_less \<lparr>year = 2023, month = 11, day = 15\<rparr> \<lparr>year = 2023, month = 11, day = 1\<rparr>"
  by (simp add: get_prediction_start_date_def replace_day_def new_date_def dim_simps
      date_less_def date_le_def)

end
